theory Spec2Isabelle
  imports Complex_Main
begin

section \<open>Tabular SARSA: the agent (sarsa.py) and its loops (train\_sarsa.py)\<close>

text \<open>
  Conventions of the embedding.
  \<^item> Observations and actions are Python ints, modelled as \<open>int\<close>.
  \<^item> Q-values, rewards and hyperparameters are Python floats. They are modelled as
    exact reals: \<open>+\<close>, \<open>-\<close>, \<open>*\<close>, \<open>/\<close>, \<open><\<close>, \<open>min\<close> and \<open>==\<close> are the
    operations on \<open>real\<close>. Rounding of IEEE doubles, NaN and infinities are not
    modelled.
  \<^item> An exception is a value \<open>Inl e\<close>. The objects are mutated in place, so a
    function that can raise still returns the state reached when it raised.
  \<^item> The module-level generator of \<open>random\<close> is a stream of raw draws,
    \<open>nat \<Rightarrow> nat\<close>; every library call that succeeds consumes the head of the stream.
\<close>

subsection \<open>Exceptions\<close>

datatype error = ValueError | IndexError | ZeroDivisionError

subsection \<open>The random module\<close>

type_synonym rng = "nat \<Rightarrow> nat"

definition rng_tail :: "rng \<Rightarrow> rng" where
  "rng_tail g = (\<lambda>n. g (Suc n))"

text \<open>\<open>random.random()\<close>: a 53-bit integer scaled into the interval from 0 (included)
  to 1 (excluded).\<close>

definition random_random :: "rng \<Rightarrow> real \<times> rng" where
  "random_random g = (real (g 0 mod 2 ^ 53) / 2 ^ 53, rng_tail g)"

text \<open>\<open>random.randint(a, b)\<close> is \<open>randrange(a, b + 1)\<close>: it raises ValueError on an
  empty range, before drawing, and otherwise returns \<open>a\<close> plus a draw below the width.\<close>

definition randint :: "int \<Rightarrow> int \<Rightarrow> rng \<Rightarrow> (error + int) \<times> rng" where
  "randint a b g =
     (let width = b + 1 - a in
      if 0 < width then (Inr (a + int (g 0) mod width), rng_tail g)
      else (Inl ValueError, g))"

text \<open>\<open>random.choice(seq)\<close> raises IndexError on an empty sequence, before drawing, and
  otherwise returns the element at a draw below the length.\<close>

definition choice :: "'a list \<Rightarrow> rng \<Rightarrow> (error + 'a) \<times> rng" where
  "choice seq g =
     (if length seq = 0 then (Inl IndexError, g)
      else (Inr (seq ! (g 0 mod length seq)), rng_tail g))"

subsection \<open>The value table: \<open>defaultdict(lambda: 0)\<close>\<close>

type_synonym qtable = "(int \<times> int) \<rightharpoonup> real"

text \<open>\<open>d[k]\<close> on a defaultdict: a stored key returns its value; a missing key calls the
  factory, stores the result under the key and returns it.\<close>

definition getitem :: "qtable \<Rightarrow> int \<times> int \<Rightarrow> real \<times> qtable" where
  "getitem t k = (case t k of Some v \<Rightarrow> (v, t) | None \<Rightarrow> (0, t(k \<mapsto> 0)))"

text \<open>\<open>d[k] = v\<close>.\<close>

definition setitem :: "qtable \<Rightarrow> int \<times> int \<Rightarrow> real \<Rightarrow> qtable" where
  "setitem t k v = t(k \<mapsto> v)"

text \<open>What a read of the table returns, as a function of the table alone.\<close>

definition lookup :: "qtable \<Rightarrow> int \<times> int \<Rightarrow> real" where
  "lookup t k = fst (getitem t k)"

subsection \<open>class Agent\<close>

record agent =
  n_acts :: int
  epsilon :: real
  gamma :: real
  q_table :: qtable

text \<open>\<open>Agent.__init__\<close>.\<close>

definition agent_init :: "int \<Rightarrow> real \<Rightarrow> real \<Rightarrow> agent" where
  "agent_init num_actions gamma0 epsilon0 =
     \<lparr>n_acts = num_actions, epsilon = epsilon0, gamma = gamma0, q_table = Map.empty\<rparr>"

text \<open>\<open>range(n)\<close>, \<open>max(xs)\<close> and \<open>enumerate(xs)\<close> of Python.\<close>

definition py_range :: "int \<Rightarrow> int list" where
  "py_range n = [0..n - 1]"

fun py_max :: "real list \<Rightarrow> error + real" where
  "py_max [] = Inl ValueError"
| "py_max (x # xs) = Inr (foldl (\<lambda>m v. if m < v then v else m) x xs)"

definition py_enumerate :: "'a list \<Rightarrow> (int \<times> 'a) list" where
  "py_enumerate xs = zip [0..int (length xs) - 1] xs"

text \<open>The comprehension \<open>[self.q_table[(obs, act)] for act in range(self.n_acts)]\<close>: the
  reads happen in order, each on the table the previous one left.\<close>

fun read_row :: "qtable \<Rightarrow> int \<Rightarrow> int list \<Rightarrow> real list \<times> qtable" where
  "read_row t obs [] = ([], t)"
| "read_row t obs (a # as) =
     (case getitem t (obs, a) of (v, t1) \<Rightarrow>
        (case read_row t1 obs as of (vs, t2) \<Rightarrow> (v # vs, t2)))"

text \<open>\<open>Agent.act\<close>.\<close>

definition act :: "'a agent_scheme \<Rightarrow> int \<Rightarrow> rng \<Rightarrow> (error + int) \<times> 'a agent_scheme \<times> rng" where
  "act ag obs g =
     (case random_random g of (r, g1) \<Rightarrow>
        if r < epsilon ag then
          (case randint 0 (n_acts ag - 1) g1 of (res, g2) \<Rightarrow> (res, ag, g2))
        else
          (case read_row (q_table ag) obs (py_range (n_acts ag)) of (act_vals, t) \<Rightarrow>
             (case py_max act_vals of
                Inl e \<Rightarrow> (Inl e, ag\<lparr>q_table := t\<rparr>, g1)
              | Inr max_val \<Rightarrow>
                  (let max_acts = map fst (filter (\<lambda>(idx, act_val). act_val = max_val)
                                              (py_enumerate act_vals))
                   in case choice max_acts g1 of (res, g2) \<Rightarrow> (res, ag\<lparr>q_table := t\<rparr>, g2)))))"

subsection \<open>class SARSA(Agent)\<close>

record sarsa = agent +
  alpha :: real

text \<open>\<open>SARSA.__init__\<close>.\<close>

definition sarsa_init :: "real \<Rightarrow> int \<Rightarrow> real \<Rightarrow> real \<Rightarrow> sarsa" where
  "sarsa_init alpha0 num_actions gamma0 epsilon0 =
     \<lparr>n_acts = num_actions, epsilon = epsilon0, gamma = gamma0, q_table = Map.empty,
      alpha = alpha0\<rparr>"

text \<open>\<open>SARSA.learn\<close>. The augmented assignment reads the entry again, adds and stores;
  the return statement reads it once more. \<open>1 - done\<close> is 0 for True and 1 for False.\<close>

definition learn ::
  "'a sarsa_scheme \<Rightarrow> int \<Rightarrow> int \<Rightarrow> real \<Rightarrow> int \<Rightarrow> int \<Rightarrow> bool \<Rightarrow> real \<times> 'a sarsa_scheme" where
  "learn ag obs action reward n_obs n_action done =
     (case getitem (q_table ag) (obs, action) of (q_val, t1) \<Rightarrow>
      case getitem t1 (n_obs, n_action) of (n_q_val, t2) \<Rightarrow>
        (let target = reward + gamma ag * n_q_val * (1 - of_bool done)
         in case getitem t2 (obs, action) of (old, t3) \<Rightarrow>
            case getitem (setitem t3 (obs, action) (old + alpha ag * (target - q_val)))
                   (obs, action) of (ret, t4) \<Rightarrow>
              (ret, ag\<lparr>q_table := t4\<rparr>)))"

text \<open>\<open>SARSA.schedule_hyperparameters\<close>. The division is a float division: it raises
  ZeroDivisionError when \<open>0.07 * max_timestep\<close> is zero.\<close>

definition schedule_hyperparameters ::
  "'a sarsa_scheme \<Rightarrow> int \<Rightarrow> int \<Rightarrow> (error + unit) \<times> 'a sarsa_scheme" where
  "schedule_hyperparameters ag timestep max_timestep =
     (let d = 0.07 * real_of_int max_timestep in
      if d = 0 then (Inl ZeroDivisionError, ag)
      else (Inr (), ag\<lparr>epsilon := 1.0 - (min 1.0 (real_of_int timestep / d)) * 0.95\<rparr>))"

subsection \<open>The environment\<close>

text \<open>The environment is a collaborator with the reset/step contract of gymnasium. Its
  objects live in a store \<open>'e\<close>; an environment is the pair of functions that act on
  the store, with the size of its action space. \<open>step\<close> returns the next
  observation, the reward and the flags terminated and truncated.\<close>

record 'e env =
  action_space_n :: int
  env_reset :: "'e \<Rightarrow> int \<times> 'e"
  env_step :: "'e \<Rightarrow> int \<Rightarrow> (int \<times> real \<times> bool \<times> bool) \<times> 'e"

subsection \<open>evaluate\<close>

text \<open>\<open>np.mean\<close> and \<open>np.std\<close> (the population standard deviation); \<open>None\<close> is the
  nan that numpy returns for an empty list.\<close>

definition np_mean :: "real list \<Rightarrow> real option" where
  "np_mean xs = (if xs = [] then None else Some (sum_list xs / real (length xs)))"

definition np_std :: "real list \<Rightarrow> real option" where
  "np_std xs =
     (case np_mean xs of
        None \<Rightarrow> None
      | Some m \<Rightarrow> Some (sqrt (sum_list (map (\<lambda>x. (x - m) ^ 2) xs) / real (length xs))))"

text \<open>The while loop of one evaluation episode.\<close>

function evaluate_steps ::
  "'e env \<Rightarrow> int \<Rightarrow> 'a agent_scheme \<Rightarrow> rng \<Rightarrow> 'e \<Rightarrow> int \<Rightarrow> real \<Rightarrow> bool \<Rightarrow> int \<Rightarrow>
     (error + real) \<times> 'a agent_scheme \<times> rng \<times> 'e" where
  "evaluate_steps env max_steps ag g e obs episodic_return done steps =
     (if \<not> done \<and> steps < max_steps then
        (case act ag obs g of
           (Inl err, ag1, g1) \<Rightarrow> (Inl err, ag1, g1, e)
         | (Inr a, ag1, g1) \<Rightarrow>
             (case env_step env e a of
                ((n_obs, reward, terminated, truncated), e1) \<Rightarrow>
                  evaluate_steps env max_steps ag1 g1 e1 n_obs (episodic_return + reward)
                    (terminated \<or> truncated) (steps + 1)))
      else (Inr episodic_return, ag, g, e))"
  by pat_completeness auto
termination
  by (relation "measure (\<lambda>(env, max_steps, ag, g, e, obs, ret, done, steps).
        nat (max_steps - steps))") auto

declare evaluate_steps.simps [simp del]

text \<open>The for loop over \<open>range(eval_episodes)\<close>, by the number of episodes left.\<close>

fun evaluate_episodes ::
  "nat \<Rightarrow> 'e env \<Rightarrow> int \<Rightarrow> 'a agent_scheme \<Rightarrow> rng \<Rightarrow> 'e \<Rightarrow> real list \<Rightarrow>
     (error + real list) \<times> 'a agent_scheme \<times> rng \<times> 'e" where
  "evaluate_episodes 0 env max_steps ag g e episodic_returns = (Inr episodic_returns, ag, g, e)"
| "evaluate_episodes (Suc n) env max_steps ag g e episodic_returns =
     (case env_reset env e of (obs, e0) \<Rightarrow>
        (case evaluate_steps env max_steps ag g e0 obs 0 False 0 of
           (Inl err, st) \<Rightarrow> (Inl err, st)
         | (Inr episodic_return, ag1, g1, e1) \<Rightarrow>
             evaluate_episodes n env max_steps ag1 g1 e1 (episodic_returns @ [episodic_return])))"

definition evaluate ::
  "'e env \<Rightarrow> 'a agent_scheme \<Rightarrow> int \<Rightarrow> int \<Rightarrow> rng \<Rightarrow> 'e \<Rightarrow>
     (error + real option \<times> real option) \<times> 'a agent_scheme \<times> rng \<times> 'e" where
  "evaluate env ag max_steps eval_episodes g e =
     (case evaluate_episodes (nat eval_episodes) env max_steps ag g e [] of
        (Inl err, st) \<Rightarrow> (Inl err, st)
      | (Inr episodic_returns, st) \<Rightarrow>
          (Inr (np_mean episodic_returns, np_std episodic_returns), st))"

subsection \<open>train\<close>

record config =
  total_steps :: int
  episode_length :: int
  eval_episodes :: int
  eval_freq :: int
  config_gamma :: real
  config_alpha :: real
  config_epsilon :: real

text \<open>The calls that \<open>train\<close> makes on the environment and on the agent are logged in the
  order in which they are made, with their arguments: \<open>env.reset()\<close>,
  \<open>agent.act(obs)\<close>, \<open>env.step(act)\<close>,
  \<open>agent.schedule_hyperparameters(timestep, max_timestep)\<close>, \<open>agent.learn(...)\<close> and
  \<open>evaluate(...)\<close>. The log is instrumentation: nothing reads it.\<close>

datatype call =
  CallReset
| CallAct int
| CallStep int
| CallSchedule int int
| CallLearn int int real int int bool
| CallEvaluate

text \<open>The inner while loop of \<open>train\<close>: the steps of one episode. It returns \<open>steps\<close>.\<close>

function train_steps ::
  "'e env \<Rightarrow> config \<Rightarrow> int \<Rightarrow> sarsa \<Rightarrow> rng \<Rightarrow> 'e \<Rightarrow> call list \<Rightarrow> int \<Rightarrow> int \<Rightarrow> real \<Rightarrow> int \<Rightarrow> bool \<Rightarrow>
     (error + int) \<times> sarsa \<times> rng \<times> 'e \<times> call list" where
  "train_steps env cfg completed_steps ag g e calls obs a episodic_return steps done =
     (if \<not> done \<and> steps < episode_length cfg then
        (case env_step env e a of
           ((n_obs, reward, terminated, truncated), e1) \<Rightarrow>
             (case schedule_hyperparameters ag completed_steps (total_steps cfg) of
                (Inl err, ag1) \<Rightarrow>
                  (Inl err, ag1, g, e1,
                   calls @ [CallStep a, CallSchedule completed_steps (total_steps cfg)])
              | (Inr u, ag1) \<Rightarrow>
                  (case act ag1 n_obs g of
                     (Inl err, ag2, g1) \<Rightarrow>
                       (Inl err, ag2, g1, e1,
                        calls @ [CallStep a, CallSchedule completed_steps (total_steps cfg),
                               CallAct n_obs])
                   | (Inr n_act, ag2, g1) \<Rightarrow>
                       (case learn ag2 obs a reward n_obs n_act (terminated \<or> truncated) of
                          (q, ag3) \<Rightarrow>
                            train_steps env cfg completed_steps ag3 g1 e1
                              (calls @ [CallStep a,
                                      CallSchedule completed_steps (total_steps cfg),
                                      CallAct n_obs,
                                      CallLearn obs a reward n_obs n_act (terminated \<or> truncated)])
                              n_obs n_act (episodic_return + reward) (steps + 1)
                              (terminated \<or> truncated)))))
      else (Inr steps, ag, g, e, calls))"
  by pat_completeness auto
termination
  by (relation "measure (\<lambda>(env, cfg, completed_steps, ag, g, e, calls, obs, a, ret, steps, done).
        nat (episode_length cfg - steps))") auto

declare train_steps.simps [simp del]

text \<open>The outer while loop of \<open>train\<close>. It need not end (an episode of no step leaves
  \<open>completed_steps\<close> where it was), so the model counts the iterations left: \<open>None\<close> is
  a run that has not returned within them. The comparison with
  \<open>completed_steps / eval_freq\<close> is a float division.\<close>

fun train_loop ::
  "nat \<Rightarrow> 'e env \<Rightarrow> 'e env \<Rightarrow> config \<Rightarrow> int \<Rightarrow> int \<Rightarrow> real option list \<Rightarrow> sarsa \<Rightarrow> rng \<Rightarrow> 'e \<Rightarrow>
     call list \<Rightarrow> ((error + real option list) \<times> sarsa \<times> rng \<times> 'e \<times> call list) option" where
  "train_loop 0 env eval_env cfg completed_steps completed_evaluations
     evaluation_return_means ag g e calls = None"
| "train_loop (Suc fuel) env eval_env cfg completed_steps completed_evaluations
     evaluation_return_means ag g e calls =
     (if completed_steps < total_steps cfg then
        (case env_reset env e of (obs, e0) \<Rightarrow>
           (case act ag obs g of
              (Inl err, ag1, g1) \<Rightarrow> Some (Inl err, ag1, g1, e0, calls @ [CallReset, CallAct obs])
            | (Inr a, ag1, g1) \<Rightarrow>
                (case train_steps env cfg completed_steps ag1 g1 e0
                        (calls @ [CallReset, CallAct obs]) obs a 0 0 False of
                   (Inl err, st) \<Rightarrow> Some (Inl err, st)
                 | (Inr steps, ag2, g2, e1, calls1) \<Rightarrow>
                     (if eval_freq cfg = 0 then Some (Inl ZeroDivisionError, ag2, g2, e1, calls1)
                      else if real_of_int completed_evaluations
                              < real_of_int (completed_steps + steps) / real_of_int (eval_freq cfg)
                      then
                        (case evaluate eval_env ag2 (episode_length cfg) (eval_episodes cfg)
                                g2 e1 of
                           (Inl err, ag3, g3, e2) \<Rightarrow>
                             Some (Inl err, ag3, g3, e2, calls1 @ [CallEvaluate])
                         | (Inr (mean_return, std_return), ag3, g3, e2) \<Rightarrow>
                             train_loop fuel env eval_env cfg (completed_steps + steps)
                               (completed_evaluations + 1)
                               (evaluation_return_means @ [mean_return])
                               ag3 g3 e2 (calls1 @ [CallEvaluate]))
                      else
                        train_loop fuel env eval_env cfg (completed_steps + steps)
                          completed_evaluations evaluation_return_means ag2 g2 e1 calls1))))
      else Some (Inr evaluation_return_means, ag, g, e, calls))"

text \<open>\<open>train\<close> builds the agent and enters the loop. The script imports \<open>SARSA\<close> from a
  module \<open>sarsa_solution\<close>; the class of that name in sarsa.py, which the import it
  replaced names, stands for it.\<close>

definition train ::
  "nat \<Rightarrow> 'e env \<Rightarrow> 'e env \<Rightarrow> config \<Rightarrow> rng \<Rightarrow> 'e \<Rightarrow>
     ((error + real option list) \<times> sarsa \<times> rng \<times> 'e \<times> call list) option" where
  "train fuel env eval_env cfg g e =
     train_loop fuel env eval_env cfg 0 0 []
       (sarsa_init (config_alpha cfg) (action_space_n env) (config_gamma cfg) (config_epsilon cfg))
       g e []"

subsection \<open>Concrete agents, environments and draws\<close>

text \<open>The inputs at which the theorems below are instantiated: an agent with an empty
  table and the hyperparameters of the worked example (\<open>alpha = 0.5\<close>, \<open>gamma = 0.9\<close>),
  the same with \<open>epsilon = 0\<close>, one whose only entry is a bootstrap value, one with a
  strict ranking of three actions in state 5, two streams of draws, an environment whose
  episodes end after one step, one whose episodes never end, and a configuration of two
  steps.\<close>

definition fresh_agent :: sarsa where
  "fresh_agent = sarsa_init 0.5 4 0.9 0.1"

definition greedy_sarsa :: sarsa where
  "greedy_sarsa = sarsa_init 0.5 4 0.9 0"



definition sevens :: rng where
  "sevens = (\<lambda>n. 7)"

definition zeros :: rng where
  "zeros = (\<lambda>n. 0)"

definition probe_env :: "unit env" where
  "probe_env = \<lparr>action_space_n = 2, env_reset = (\<lambda>e. (0, e)),
                 env_step = (\<lambda>e a. ((0, 1, True, False), e))\<rparr>"

definition still_env :: "unit env" where
  "still_env = \<lparr>action_space_n = 1, env_reset = (\<lambda>e. (0, e)),
                 env_step = (\<lambda>e a. ((0, 0, False, False), e))\<rparr>"

definition small_config :: config where
  "small_config = \<lparr>total_steps = 2, episode_length = 2, eval_episodes = 0, eval_freq = 100,
     config_gamma = 0.99, config_alpha = 0.1, config_epsilon = 0.9\<rparr>"

subsection \<open>A run that only reads the agent\<close>

text \<open>\<open>reads_only ag ag'\<close>: \<open>ag'\<close> is \<open>ag\<close> up to its table, every entry of \<open>ag\<close> is an
  entry of \<open>ag'\<close>, and every read returns what it returned before.\<close>

definition reads_only :: "'a agent_scheme \<Rightarrow> 'a agent_scheme \<Rightarrow> bool" where
  "reads_only ag ag' \<longleftrightarrow>
     ag' = ag\<lparr>q_table := q_table ag'\<rparr> \<and> q_table ag \<subseteq>\<^sub>m q_table ag'
     \<and> (\<forall>k. lookup (q_table ag') k = lookup (q_table ag) k)"

section \<open>Properties\<close>

subsection \<open>Reads and writes of the table\<close>

lemma lookup_eq: "lookup t k = (case t k of None \<Rightarrow> 0 | Some v \<Rightarrow> v)"
  by (simp add: lookup_def getitem_def split: option.split)

lemma lookup_upd: "lookup (t(k \<mapsto> v)) k' = (if k' = k then v else lookup t k')"
  by (simp add: lookup_eq)

lemma lookup_snd_getitem: "lookup (snd (getitem t k)) k' = lookup t k'"
  by (simp add: lookup_eq getitem_def split: option.split)

lemma dom_snd_getitem: "dom (snd (getitem t k)) = insert k (dom t)"
  by (auto simp: getitem_def split: option.splits)

lemma snd_getitem_in_dom: "k \<in> dom t \<Longrightarrow> snd (getitem t k) = t"
  by (auto simp: getitem_def)

lemma map_le_snd_getitem: "t \<subseteq>\<^sub>m snd (getitem t k)"
  by (auto simp: getitem_def map_le_def split: option.splits)

lemma in_dom_lookup: "k \<in> dom t \<Longrightarrow> t k = Some (lookup t k)"
  by (auto simp: lookup_eq)

subsection \<open>learn and schedule\_hyperparameters in closed form\<close>

lemma learn_eq:
  "learn ag obs action reward n_obs n_action done =
     (lookup (q_table ag) (obs, action)
       + alpha ag * ((reward + gamma ag * lookup (q_table ag) (n_obs, n_action) * (1 - of_bool done))
                      - lookup (q_table ag) (obs, action)),
      ag\<lparr>q_table := (snd (getitem (snd (getitem (q_table ag) (obs, action))) (n_obs, n_action)))
             ((obs, action) \<mapsto> lookup (q_table ag) (obs, action)
       + alpha ag * ((reward + gamma ag * lookup (q_table ag) (n_obs, n_action) * (1 - of_bool done))
                      - lookup (q_table ag) (obs, action)))\<rparr>)"
  by (simp add: learn_def case_prod_beta Let_def setitem_def lookup_def [symmetric]
        lookup_snd_getitem lookup_upd snd_getitem_in_dom dom_snd_getitem)

lemma learn_fst:
  "fst (learn ag obs action reward n_obs n_action done) =
     lookup (q_table ag) (obs, action)
       + alpha ag * ((reward + gamma ag * lookup (q_table ag) (n_obs, n_action) * (1 - of_bool done))
                      - lookup (q_table ag) (obs, action))"
  by (simp add: learn_eq)

lemma learn_stored:
  "q_table (snd (learn ag obs action reward n_obs n_action done)) (obs, action) =
     Some (fst (learn ag obs action reward n_obs n_action done))"
  by (simp add: learn_eq)

lemma learn_lookup:
  "lookup (q_table (snd (learn ag obs action reward n_obs n_action done))) k =
     (if k = (obs, action) then fst (learn ag obs action reward n_obs n_action done)
      else lookup (q_table ag) k)"
  by (simp add: learn_eq lookup_upd lookup_snd_getitem)


lemma dom_learn:
  "dom (q_table (snd (learn ag obs action reward n_obs n_action done))) =
     insert (obs, action) (insert (n_obs, n_action) (dom (q_table ag)))"
  by (auto simp: learn_eq dom_snd_getitem)


subsection \<open>The row of values read by act\<close>

lemma read_row_fst: "fst (read_row t obs as) = map (\<lambda>a. lookup t (obs, a)) as"
proof (induction as arbitrary: t)
  case Nil
  show ?case by simp
next
  case (Cons a as)
  show ?case
    using Cons.IH [of "snd (getitem t (obs, a))"]
    by (simp add: case_prod_beta lookup_snd_getitem lookup_def [symmetric])
qed

lemma read_row_lookup: "lookup (snd (read_row t obs as)) k = lookup t k"
proof (induction as arbitrary: t)
  case Nil
  show ?case by simp
next
  case (Cons a as)
  show ?case
    using Cons.IH [of "snd (getitem t (obs, a))"]
    by (simp add: case_prod_beta lookup_snd_getitem)
qed

lemma dom_read_row: "dom (snd (read_row t obs as)) = dom t \<union> Pair obs ` set as"
proof (induction as arbitrary: t)
  case Nil
  show ?case by simp
next
  case (Cons a as)
  show ?case
    using Cons.IH [of "snd (getitem t (obs, a))"]
    by (simp add: case_prod_beta dom_snd_getitem)
qed

lemma map_le_read_row: "t \<subseteq>\<^sub>m snd (read_row t obs as)"
proof (induction as arbitrary: t)
  case Nil
  show ?case by simp
next
  case (Cons a as)
  have "t \<subseteq>\<^sub>m snd (getitem t (obs, a))" by (rule map_le_snd_getitem)
  also have "\<dots> \<subseteq>\<^sub>m snd (read_row (snd (getitem t (obs, a))) obs as)" by (rule Cons.IH)
  finally show ?case by (simp add: case_prod_beta)
qed

lemma read_row_unseen:
  assumes "(obs, a) \<notin> dom t" and "a \<in> set as"
  shows "snd (read_row t obs as) (obs, a) = Some 0"
proof -
  have "(obs, a) \<in> dom (snd (read_row t obs as))"
    using assms(2) by (simp add: dom_read_row)
  then have "snd (read_row t obs as) (obs, a) = Some (lookup (snd (read_row t obs as)) (obs, a))"
    by (rule in_dom_lookup)
  also have "lookup (snd (read_row t obs as)) (obs, a) = lookup t (obs, a)"
    by (rule read_row_lookup)
  also have "\<dots> = 0" using assms(1) by (simp add: lookup_eq domIff)
  finally show ?thesis .
qed

lemma foldl_max: "foldl (\<lambda>m v. if m < v then v else m) (x::real) xs = Max (set (x # xs))"
proof (induction xs arbitrary: x)
  case Nil
  show ?case by simp
next
  case (Cons y ys)
  have "(if x < y then y else x) = max x y" by (simp add: max_def)
  then have "foldl (\<lambda>m v. if m < v then v else m) x (y # ys) = Max (set (max x y # ys))"
    using Cons.IH [of "max x y"] by simp
  also have "\<dots> = Max (set (x # y # ys))"
    by (cases "ys = []") (simp_all add: Max_insert max.assoc)
  finally show ?case .
qed

lemma py_max_Max: "xs \<noteq> [] \<Longrightarrow> py_max xs = Inr (Max (set xs))"
  by (cases xs) (simp_all only: py_max.simps foldl_max, simp)

lemma set_py_enumerate:
  "set (py_enumerate xs) = {(int i, xs ! i) | i. i < length xs}"
proof -
  have len: "length [0..int (length xs) - 1] = length xs" by simp
  have nth: "[0..int (length xs) - 1] ! i = int i" if "i < length xs" for i
    using that by simp
  have "set (py_enumerate xs) =
      {([0..int (length xs) - 1] ! i, xs ! i) | i. i < length xs}"
    unfolding py_enumerate_def set_zip len by simp
  also have "\<dots> = {(int i, xs ! i) | i. i < length xs}"
    using nth by (intro Collect_cong) metis
  finally show ?thesis .
qed

lemma set_max_acts:
  "set (map fst (filter (\<lambda>(idx, act_val). act_val = m) (py_enumerate xs))) =
     {int i | i. i < length xs \<and> xs ! i = m}"
  by (auto simp: set_py_enumerate image_iff)

lemma choice_mem: "seq \<noteq> [] \<Longrightarrow> \<exists>x \<in> set seq. choice seq g = (Inr x, rng_tail g)"
  by (simp add: choice_def)

lemma length_py_range: "length (py_range n) = nat n"
  by (simp add: py_range_def)

lemma nth_py_range: "i < nat n \<Longrightarrow> py_range n ! i = int i"
  by (simp add: py_range_def)

lemma set_py_range: "set (py_range n) = {0..<n}"
  by (auto simp: py_range_def)

lemma py_range_2: "py_range 2 = [0, 1]"
  by (simp add: py_range_def upto.simps)

subsection \<open>The two branches of act\<close>

lemma random_random_range: "0 \<le> fst (random_random g) \<and> fst (random_random g) < 1"
proof -
  have "g 0 mod 2 ^ 53 < 2 ^ 53" by simp
  then have "real (g 0 mod 2 ^ 53) < 2 ^ 53"
    by (metis of_nat_less_iff of_nat_numeral of_nat_power)
  then show ?thesis by (simp add: random_random_def)
qed

lemma act_explore:
  assumes "fst (random_random g) < epsilon ag"
  shows "act ag obs g =
           (if 1 \<le> n_acts ag then (Inr (int (g 1) mod n_acts ag), ag, rng_tail (rng_tail g))
            else (Inl ValueError, ag, rng_tail g))"
  using assms by (simp add: act_def randint_def case_prod_beta random_random_def rng_tail_def)

lemma act_exploit_fail:
  assumes "\<not> fst (random_random g) < epsilon ag" and "n_acts ag \<le> 0"
  shows "act ag obs g = (Inl ValueError, ag, rng_tail g)"
proof -
  have "py_range (n_acts ag) = []" using assms(2) by (simp add: py_range_def)
  then show ?thesis
    using assms(1) by (simp add: act_def case_prod_beta random_random_def)
qed

lemma act_exploit:
  assumes r: "\<not> fst (random_random g) < epsilon ag" and n: "1 \<le> n_acts ag"
  shows "\<exists>a. act ag obs g =
               (Inr a, ag\<lparr>q_table := snd (read_row (q_table ag) obs (py_range (n_acts ag)))\<rparr>,
                rng_tail (rng_tail g))
           \<and> 0 \<le> a \<and> a < n_acts ag
           \<and> lookup (q_table ag) (obs, a) =
               Max ((\<lambda>b. lookup (q_table ag) (obs, b)) ` {0..<n_acts ag})"
proof -
  let ?t = "q_table ag"
  let ?vals = "map (\<lambda>a. lookup ?t (obs, a)) (py_range (n_acts ag))"
  let ?m = "Max (set ?vals)"
  let ?max_acts = "map fst (filter (\<lambda>(idx, act_val). act_val = ?m) (py_enumerate ?vals))"
  have len: "length ?vals = nat (n_acts ag)" by (simp add: length_py_range)
  have ne: "?vals \<noteq> []" using n len by auto
  have nth: "?vals ! i = lookup ?t (obs, int i)" if "i < nat (n_acts ag)" for i
    using that by (simp add: length_py_range nth_py_range)
  have setv: "set ?vals = (\<lambda>b. lookup ?t (obs, b)) ` {0..<n_acts ag}"
    by (simp add: set_py_range)
  have "?m \<in> set ?vals" using ne by (intro Max_in) simp_all
  then obtain i where i: "i < length ?vals" "?vals ! i = ?m"
    by (auto simp: in_set_conv_nth simp del: set_map)
  then have "int i \<in> set ?max_acts" unfolding set_max_acts by blast
  then have ne_acts: "?max_acts \<noteq> []" by (metis empty_iff empty_set)
  obtain x where x: "x \<in> set ?max_acts" "choice ?max_acts (rng_tail g) = (Inr x, rng_tail (rng_tail g))"
    using choice_mem [OF ne_acts] by blast
  from x(1) obtain j where j: "x = int j" "j < length ?vals" "?vals ! j = ?m"
    unfolding set_max_acts by blast
  have val: "lookup ?t (obs, x) = ?m" using j nth len by simp
  have rng: "0 \<le> x \<and> x < n_acts ag" using j len by auto
  have "act ag obs g =
      (Inr x, ag\<lparr>q_table := snd (read_row ?t obs (py_range (n_acts ag)))\<rparr>, rng_tail (rng_tail g))"
    using r by (simp add: act_def case_prod_beta read_row_fst py_max_Max [OF ne] x(2)
        random_random_def Let_def del: set_map)
  with val rng show ?thesis unfolding setv by blast
qed

lemma act_table:
  "fst (snd (act ag obs g)) =
     (if fst (random_random g) < epsilon ag then ag
      else ag\<lparr>q_table := snd (read_row (q_table ag) obs (py_range (n_acts ag)))\<rparr>)"
proof (cases "fst (random_random g) < epsilon ag")
  case True
  then show ?thesis by (simp add: act_explore)
next
  case False
  show ?thesis
  proof (cases "1 \<le> n_acts ag")
    case True
    with False act_exploit [of g ag obs] show ?thesis by auto
  next
    case n: False
    then have "py_range (n_acts ag) = []" by (simp add: py_range_def)
    with False n show ?thesis by (simp add: act_exploit_fail)
  qed
qed

subsection \<open>The loops of evaluate\<close>

lemma reads_only_refl: "reads_only ag ag"
  by (simp add: reads_only_def)

lemma reads_only_trans:
  assumes "reads_only a b" and "reads_only b c"
  shows "reads_only a c"
proof -
  from assms have cb: "c = b\<lparr>q_table := q_table c\<rparr>"
    and ba: "b = a\<lparr>q_table := q_table b\<rparr>"
    by (simp_all add: reads_only_def)
  have "b\<lparr>q_table := q_table c\<rparr> = a\<lparr>q_table := q_table c\<rparr>"
    by (subst ba) simp
  with cb have "c = a\<lparr>q_table := q_table c\<rparr>" by simp
  moreover have "q_table a \<subseteq>\<^sub>m q_table c"
    using assms unfolding reads_only_def by (blast intro: map_le_trans)
  moreover have "\<forall>k. lookup (q_table c) k = lookup (q_table a) k"
    using assms unfolding reads_only_def by simp
  ultimately show ?thesis unfolding reads_only_def by blast
qed

lemma reads_only_entries:
  assumes "reads_only ag ag'"
  shows "q_table ag' k =
           (if k \<in> dom (q_table ag) then q_table ag k
            else if k \<in> dom (q_table ag') then Some 0 else None)"
proof (cases "k \<in> dom (q_table ag)")
  case True
  have "q_table ag \<subseteq>\<^sub>m q_table ag'" using assms by (simp add: reads_only_def)
  with True have "q_table ag k = q_table ag' k" by (simp add: map_le_def)
  with True show ?thesis by simp
next
  case False
  then have z: "lookup (q_table ag) k = 0" by (simp add: lookup_eq domIff)
  show ?thesis
  proof (cases "k \<in> dom (q_table ag')")
    case True
    then have "q_table ag' k = Some (lookup (q_table ag') k)" by (rule in_dom_lookup)
    also have "lookup (q_table ag') k = lookup (q_table ag) k"
      using assms unfolding reads_only_def by blast
    finally show ?thesis using False True z by simp
  next
    case n: False
    with False show ?thesis by (simp add: domIff)
  qed
qed

lemma act_reads_only: "reads_only ag (fst (snd (act ag obs g)))"
  unfolding act_table
  by (simp add: reads_only_def map_le_read_row read_row_lookup)

lemma evaluate_steps_stop:
  "fin \<or> \<not> steps < max_steps \<Longrightarrow>
   evaluate_steps env max_steps ag g e obs ret fin steps = (Inr ret, ag, g, e)"
  by (subst evaluate_steps.simps) auto

lemma evaluate_steps_raise:
  "\<not> fin \<Longrightarrow> steps < max_steps \<Longrightarrow> act ag obs g = (Inl err, ag1, g1) \<Longrightarrow>
   evaluate_steps env max_steps ag g e obs ret fin steps = (Inl err, ag1, g1, e)"
  by (subst evaluate_steps.simps) simp

lemma evaluate_steps_go:
  "\<not> fin \<Longrightarrow> steps < max_steps \<Longrightarrow> act ag obs g = (Inr a, ag1, g1) \<Longrightarrow>
   env_step env e a = ((n_obs, reward, terminated, truncated), e1) \<Longrightarrow>
   evaluate_steps env max_steps ag g e obs ret fin steps =
     evaluate_steps env max_steps ag1 g1 e1 n_obs (ret + reward) (terminated \<or> truncated)
       (steps + 1)"
  by (subst evaluate_steps.simps) simp

lemma evaluate_steps_reads_only:
  "reads_only ag (fst (snd (evaluate_steps env max_steps ag g e obs ret fin steps)))"
proof (induction "nat (max_steps - steps)" arbitrary: ag g e obs ret fin steps)
  case 0
  then have "\<not> steps < max_steps" by simp
  then show ?case by (simp add: evaluate_steps_stop reads_only_refl)
next
  case (Suc n)
  show ?case
  proof (cases "\<not> fin \<and> steps < max_steps")
    case False
    then have "fin \<or> \<not> steps < max_steps" by simp
    then show ?thesis by (simp add: evaluate_steps_stop reads_only_refl)
  next
    case True
    obtain res ag1 g1 where A: "act ag obs g = (res, ag1, g1)"
      by (cases "act ag obs g") auto
    have first: "reads_only ag ag1"
      using act_reads_only [of ag obs g] A by simp
    show ?thesis
    proof (cases res)
      case (Inl err)
      with True A first show ?thesis by (simp add: evaluate_steps_raise)
    next
      case (Inr a)
      obtain n_obs reward terminated truncated e1 where
        S: "env_step env e a = ((n_obs, reward, terminated, truncated), e1)"
        by (cases "env_step env e a") auto
      have n: "n = nat (max_steps - (steps + 1))" using Suc.hyps(2) by simp
      have "reads_only ag1 (fst (snd (evaluate_steps env max_steps ag1 g1 e1 n_obs
                (ret + reward) (terminated \<or> truncated) (steps + 1))))"
        by (rule Suc.hyps(1) [OF n])
      with first have "reads_only ag (fst (snd (evaluate_steps env max_steps ag1 g1 e1 n_obs
                (ret + reward) (terminated \<or> truncated) (steps + 1))))"
        by (rule reads_only_trans)
      moreover have "evaluate_steps env max_steps ag g e obs ret fin steps =
          evaluate_steps env max_steps ag1 g1 e1 n_obs
                (ret + reward) (terminated \<or> truncated) (steps + 1)"
        using True A Inr S by (simp add: evaluate_steps_go)
      ultimately show ?thesis by simp
    qed
  qed
qed

lemma evaluate_episodes_reads_only:
  "reads_only ag (fst (snd (evaluate_episodes n env max_steps ag g e rs)))"
proof (induction n arbitrary: ag g e rs)
  case 0
  show ?case by (simp add: reads_only_refl)
next
  case (Suc n)
  obtain obs e0 where R: "env_reset env e = (obs, e0)" by (cases "env_reset env e") auto
  obtain res ag1 g1 e1 where
    E: "evaluate_steps env max_steps ag g e0 obs 0 False 0 = (res, ag1, g1, e1)"
    by (cases "evaluate_steps env max_steps ag g e0 obs 0 False 0") auto
  have first: "reads_only ag ag1"
    using evaluate_steps_reads_only [of ag env max_steps g e0 obs 0 False 0] E by simp
  show ?case
  proof (cases res)
    case (Inl err)
    with R E first show ?thesis by simp
  next
    case (Inr r)
    have "reads_only ag1 (fst (snd (evaluate_episodes n env max_steps ag1 g1 e1 (rs @ [r]))))"
      by (rule Suc.IH)
    with first have "reads_only ag (fst (snd (evaluate_episodes n env max_steps ag1 g1 e1 (rs @ [r]))))"
      by (rule reads_only_trans)
    with R E Inr show ?thesis by simp
  qed
qed

lemma evaluate_reads_only:
  "reads_only ag (fst (snd (evaluate env ag max_steps episodes g e)))"
proof -
  have "fst (snd (evaluate env ag max_steps episodes g e)) =
      fst (snd (evaluate_episodes (nat episodes) env max_steps ag g e []))"
    by (simp add: evaluate_def split: prod.split sum.split)
  then show ?thesis by (simp add: evaluate_episodes_reads_only)
qed

subsection \<open>Unseen keys\<close>

lemma learn_unseen_next:
  assumes "(n_obs, n_action) \<notin> dom (q_table ag)" and "(obs, action) \<noteq> (n_obs, n_action)"
  shows "q_table (snd (learn ag obs action reward n_obs n_action fin)) (n_obs, n_action) = Some 0"
proof -
  let ?ag' = "snd (learn ag obs action reward n_obs n_action fin)"
  have "(n_obs, n_action) \<in> dom (q_table ?ag')" by (simp add: dom_learn)
  then have "q_table ?ag' (n_obs, n_action) = Some (lookup (q_table ?ag') (n_obs, n_action))"
    by (rule in_dom_lookup)
  also have "lookup (q_table ?ag') (n_obs, n_action) = lookup (q_table ag) (n_obs, n_action)"
    using assms(2) by (auto simp: learn_lookup)
  also have "\<dots> = 0" using assms(1) by (simp add: lookup_eq domIff)
  finally show ?thesis .
qed

lemma rng_tail_zeros: "rng_tail zeros = zeros"
  by (simp add: rng_tail_def zeros_def)

lemma zeros_0: "zeros 0 = 0"
  by (simp add: zeros_def)

section \<open>The claims\<close>

text \<open>
  Claim C1 (evaluate leaves the table and epsilon unchanged). As stated the claim fails in
  one part: the exploitation branch of \<open>act\<close> reads \<open>q_table[(obs, a)]\<close> for every
  action, and a read of a missing key of a defaultdict stores the key. What holds for every
  environment, agent, stream of draws and pair of bounds, whether \<open>evaluate\<close> returns or
  raises: epsilon is unchanged; every read of the table returns what it returned before;
  every stored entry is still stored with its value; the key set can only grow, and a new
  key holds 0; no other field of the agent changes.
\<close>

theorem evaluate_frame:
  "epsilon (fst (snd (evaluate env ag max_steps episodes g e))) = epsilon ag
   \<and> (\<forall>k. lookup (q_table (fst (snd (evaluate env ag max_steps episodes g e)))) k
           = lookup (q_table ag) k)
   \<and> q_table ag \<subseteq>\<^sub>m q_table (fst (snd (evaluate env ag max_steps episodes g e)))
   \<and> dom (q_table ag) \<subseteq> dom (q_table (fst (snd (evaluate env ag max_steps episodes g e))))
   \<and> (\<forall>k. q_table (fst (snd (evaluate env ag max_steps episodes g e))) k =
           (if k \<in> dom (q_table ag) then q_table ag k
            else if k \<in> dom (q_table (fst (snd (evaluate env ag max_steps episodes g e))))
                 then Some 0 else None))
   \<and> fst (snd (evaluate env ag max_steps episodes g e))
       = ag\<lparr>q_table := q_table (fst (snd (evaluate env ag max_steps episodes g e)))\<rparr>"
proof -
  let ?ag' = "fst (snd (evaluate env ag max_steps episodes g e))"
  have r: "reads_only ag ?ag'" by (rule evaluate_reads_only)
  then have same: "?ag' = ag\<lparr>q_table := q_table ?ag'\<rparr>" by (simp add: reads_only_def)
  have "epsilon ?ag' = epsilon (ag\<lparr>q_table := q_table ?ag'\<rparr>)" using same by simp
  then have eps: "epsilon ?ag' = epsilon ag" by simp
  have le: "q_table ag \<subseteq>\<^sub>m q_table ?ag'" using r by (simp add: reads_only_def)
  then have sub: "dom (q_table ag) \<subseteq> dom (q_table ?ag')" by (rule map_le_implies_dom_le)
  have lk: "\<forall>k. lookup (q_table ?ag') k = lookup (q_table ag) k"
    using r by (simp add: reads_only_def)
  have ent: "\<forall>k. q_table ?ag' k =
           (if k \<in> dom (q_table ag) then q_table ag k
            else if k \<in> dom (q_table ?ag') then Some 0 else None)"
    using reads_only_entries [OF r] by blast
  from eps lk le sub ent same show ?thesis by blast
qed

text \<open>Counterexample to claim C1 as stated. The key set does change: an agent with an
  empty table and \<open>epsilon = 0\<close>, two actions, one evaluation episode of one step from
  state 0. Afterwards the table holds the keys \<open>(0, 0)\<close> and \<open>(0, 1)\<close>.\<close>

theorem evaluate_adds_keys:
  "dom (q_table (agent_init 2 0.9 0)) = {}
   \<and> dom (q_table (fst (snd (evaluate probe_env (agent_init 2 0.9 0) 1 1 sevens ()))))
       = {(0, 0), (0, 1)}"
proof -
  let ?ag = "agent_init 2 0.9 0"
  have eps: "epsilon ?ag = 0" and n: "n_acts ?ag = 2" and t: "q_table ?ag = Map.empty"
    by (simp_all add: agent_init_def)
  have r: "\<not> fst (random_random sevens) < epsilon ?ag"
    using random_random_range [of sevens] eps by simp
  obtain a where A: "act ?ag 0 sevens =
      (Inr a, ?ag\<lparr>q_table := snd (read_row (q_table ?ag) 0 (py_range (n_acts ?ag)))\<rparr>,
       rng_tail (rng_tail sevens))"
    using act_exploit [OF r, of 0] n by auto
  let ?ag1 = "?ag\<lparr>q_table := snd (read_row (q_table ?ag) 0 (py_range (n_acts ?ag)))\<rparr>"
  have S: "env_step probe_env () a = ((0, 1, True, False), ())"
    by (simp add: probe_env_def)
  have "evaluate_steps probe_env 1 ?ag sevens () 0 0 False 0 =
      evaluate_steps probe_env 1 ?ag1 (rng_tail (rng_tail sevens)) () 0 (0 + 1) (True \<or> False) (0 + 1)"
    by (rule evaluate_steps_go [OF _ _ A S]) simp_all
  also have "\<dots> = (Inr (0 + 1), ?ag1, rng_tail (rng_tail sevens), ())"
    by (rule evaluate_steps_stop) simp
  finally have E: "evaluate_steps probe_env 1 ?ag sevens () 0 0 False 0 =
      (Inr 1, ?ag1, rng_tail (rng_tail sevens), ())" by simp
  have R: "env_reset probe_env () = (0, ())" by (simp add: probe_env_def)
  have "evaluate_episodes (Suc 0) probe_env 1 ?ag sevens () [] =
      (Inr [1], ?ag1, rng_tail (rng_tail sevens), ())"
    by (simp add: R E)
  then have "fst (snd (evaluate probe_env ?ag 1 1 sevens ())) = ?ag1"
    by (simp add: evaluate_def)
  moreover have "q_table ?ag1 = snd (read_row (q_table ?ag) 0 (py_range (n_acts ?ag)))"
    by simp
  moreover have "dom (snd (read_row (q_table ?ag) 0 (py_range (n_acts ?ag)))) = {(0, 0), (0, 1)}"
    unfolding dom_read_row by (simp add: n t py_range_2)
  ultimately show ?thesis by (simp only: t dom_empty simp_thms)
qed

text \<open>
  Claim C2 (an unseen key reads as 0 and the read does not add the key). The first half
  holds, the second does not: the table is a \<open>defaultdict\<close>, and its read stores the
  missing key with the default. For a key \<open>(obs, a)\<close> that is not stored: the read returns
  0 and leaves the table with that one key more, holding 0; every read returns afterwards
  what it returned before; the exploitation branch of \<open>act\<close> in state \<open>obs\<close> stores the
  key when \<open>a\<close> is an action; and \<open>learn\<close> stores it when it is the next pair
  of the transition.
\<close>

theorem unseen_read_materialises:
  assumes "(obs, a) \<notin> dom (q_table ag)"
  shows "getitem (q_table ag) (obs, a) = (0, (q_table ag)((obs, a) \<mapsto> 0))
       \<and> lookup (q_table ag) (obs, a) = 0
       \<and> dom (snd (getitem (q_table ag) (obs, a))) = insert (obs, a) (dom (q_table ag))
       \<and> (\<forall>k. lookup (snd (getitem (q_table ag) (obs, a))) k = lookup (q_table ag) k)
       \<and> (\<not> fst (random_random g) < epsilon ag \<and> 0 \<le> a \<and> a < n_acts ag \<longrightarrow>
            q_table (fst (snd (act ag obs g))) (obs, a) = Some 0)
       \<and> ((s, b) \<noteq> (obs, a) \<longrightarrow>
            q_table (snd (learn ag s b r obs a fin)) (obs, a) = Some 0)"
proof -
  have none: "q_table ag (obs, a) = None" using assms by auto
  have c1: "getitem (q_table ag) (obs, a) = (0, (q_table ag)((obs, a) \<mapsto> 0))"
    using none by (simp add: getitem_def)
  have c2: "lookup (q_table ag) (obs, a) = 0"
    using none by (simp add: lookup_eq)
  have c3: "dom (snd (getitem (q_table ag) (obs, a))) = insert (obs, a) (dom (q_table ag))"
    by (rule dom_snd_getitem)
  have c4: "\<forall>k. lookup (snd (getitem (q_table ag) (obs, a))) k = lookup (q_table ag) k"
    by (simp add: lookup_snd_getitem)
  have c5: "q_table (fst (snd (act ag obs g))) (obs, a) = Some 0"
    if "\<not> fst (random_random g) < epsilon ag \<and> 0 \<le> a \<and> a < n_acts ag"
  proof -
    have "a \<in> set (py_range (n_acts ag))" using that by (simp add: set_py_range)
    with assms have "snd (read_row (q_table ag) obs (py_range (n_acts ag))) (obs, a) = Some 0"
      by (rule read_row_unseen)
    with that show ?thesis by (simp add: act_table)
  qed
  have c6: "q_table (snd (learn ag s b r obs a fin)) (obs, a) = Some 0" if "(s, b) \<noteq> (obs, a)"
    using assms that by (rule learn_unseen_next)
  from c1 c2 c3 c4 c5 c6 show ?thesis by blast
qed

theorem unseen_read_materialises_witness:
  "(3, 1) \<notin> dom (q_table greedy_sarsa)
   \<and> getitem (q_table greedy_sarsa) (3, 1) = (0, [(3, 1) \<mapsto> 0])
   \<and> dom (snd (getitem (q_table greedy_sarsa) (3, 1))) = {(3, 1)}
   \<and> q_table (fst (snd (act greedy_sarsa 3 sevens))) (3, 1) = Some 0
   \<and> q_table (snd (learn greedy_sarsa 0 0 1 3 1 False)) (3, 1) = Some 0"
proof -
  have t: "q_table greedy_sarsa = Map.empty" and e: "epsilon greedy_sarsa = 0"
    and n: "n_acts greedy_sarsa = 4"
    by (simp_all add: greedy_sarsa_def sarsa_init_def)
  have h: "(3, 1) \<notin> dom (q_table greedy_sarsa)" by (simp add: t)
  note T = unseen_read_materialises [OF h, of sevens 0 0 1 False]
  have r: "\<not> fst (random_random sevens) < epsilon greedy_sarsa \<and> (0::int) \<le> 1
      \<and> 1 < n_acts greedy_sarsa"
    using random_random_range [of sevens] by (simp add: e n)
  have ne: "(0::int, 0::int) \<noteq> (3, 1)" by simp
  from T have a: "getitem (q_table greedy_sarsa) (3, 1) = (0, (q_table greedy_sarsa)((3, 1) \<mapsto> 0))"
    by blast
  from T have b: "dom (snd (getitem (q_table greedy_sarsa) (3, 1))) = insert (3, 1) (dom (q_table greedy_sarsa))"
    by blast
  from T r have c: "q_table (fst (snd (act greedy_sarsa 3 sevens))) (3, 1) = Some 0"
    by blast
  from T ne have d: "q_table (snd (learn greedy_sarsa 0 0 1 3 1 False)) (3, 1) = Some 0"
    by blast
  from h a b c d show ?thesis by (simp add: t)
qed

text \<open>Counterexample to claim C2 as stated. The read of the unseen key \<open>(3, 1)\<close> in an
  empty table returns 0 and leaves the key set \<open>{(3, 1)}\<close>.\<close>

theorem unseen_read_adds_key:
  "fst (getitem (q_table fresh_agent) (3, 1)) = 0
   \<and> dom (q_table fresh_agent) = {}
   \<and> dom (snd (getitem (q_table fresh_agent) (3, 1))) = {(3, 1)}"
  by (simp add: fresh_agent_def sarsa_init_def getitem_def)

text \<open>
  Claim C3 (schedule\_hyperparameters is invoked exactly once per episode, before any act
  call of the episode). The docstring of the method says the same: it is called before
  every episode, with the timestep at the beginning of the episode. \<open>train\<close> does
  otherwise: it selects the first action of the episode before any call of the schedule,
  and calls the schedule in every step of the inner loop. The calls of a run of one episode
  of two steps, in order:
\<close>

theorem train_schedules_every_step:
  "map_option (\<lambda>(res, ag, g, e, calls). calls)
     (train 2 still_env still_env small_config zeros ()) =
   Some [CallReset, CallAct 0,
         CallStep 0, CallSchedule 0 2, CallAct 0, CallLearn 0 0 0 0 0 False,
         CallStep 0, CallSchedule 0 2, CallAct 0, CallLearn 0 0 0 0 0 False,
         CallEvaluate]"
  by (simp add: train_def still_env_def small_config_def sarsa_init_def act_def
      random_random_def randint_def rng_tail_zeros zeros_0 train_steps.simps
      schedule_hyperparameters_def learn_def getitem_def setitem_def evaluate_def
      np_mean_def np_std_def numeral_2_eq_2)

text \<open>
  Claim C4 (the SARSA update). With \<open>current\<close> and \<open>bootstrap\<close> the values that reads of
  \<open>(obs, action)\<close> and \<open>(n_obs, n_action)\<close> return before the call, \<open>learn\<close> returns
  \<open>current + alpha * ((reward + gamma * bootstrap * (1 - done)) - current)\<close> and stores it
  under \<open>(obs, action)\<close>; from an empty table with \<open>gamma = 0.9\<close>, \<open>alpha = 0.5\<close>,
  \<open>reward = 10\<close>, \<open>done = False\<close> the value is 5.
\<close>

theorem learn_td_update:
  "fst (learn ag obs action reward n_obs n_action done) =
     lookup (q_table ag) (obs, action)
       + alpha ag * ((reward + gamma ag * lookup (q_table ag) (n_obs, n_action) * (1 - of_bool done))
                      - lookup (q_table ag) (obs, action))
   \<and> q_table (snd (learn ag obs action reward n_obs n_action done)) (obs, action) =
       Some (fst (learn ag obs action reward n_obs n_action done))
   \<and> fst (learn (sarsa_init 0.5 n 0.9 eps) 0 1 10 2 0 False) = 5
   \<and> q_table (snd (learn (sarsa_init 0.5 n 0.9 eps) 0 1 10 2 0 False)) (0, 1) = Some 5"
proof -
  have "fst (learn (sarsa_init 0.5 n 0.9 eps) 0 1 10 2 0 False) = 5"
    by (simp add: learn_fst sarsa_init_def lookup_eq)
  then show ?thesis
    by (simp add: learn_fst learn_stored)
qed










text \<open>
  Claim C9 (act fails without actions). With \<open>n_acts \<le> 0\<close> every call of \<open>act\<close> raises
  ValueError, whatever the draws and epsilon: \<open>randint\<close> on the empty range in the
  exploration branch, \<open>max\<close> of the empty list in the exploitation branch. The agent is
  left as it was.
\<close>

theorem act_fails_without_actions:
  assumes "n_acts ag \<le> 0"
  shows "fst (act ag obs g) = Inl ValueError \<and> fst (snd (act ag obs g)) = ag"
proof (cases "fst (random_random g) < epsilon ag")
  case True
  with assms show ?thesis by (simp add: act_explore)
next
  case False
  with assms show ?thesis by (simp add: act_exploit_fail)
qed

theorem act_fails_without_actions_witness:
  "n_acts (agent_init 0 0.9 1) \<le> 0
   \<and> fst (act (agent_init 0 0.9 1) 3 sevens) = Inl ValueError
   \<and> n_acts (agent_init (- 2) 0.9 0) \<le> 0
   \<and> fst (act (agent_init (- 2) 0.9 0) 3 sevens) = Inl ValueError"
proof -
  have a: "n_acts (agent_init 0 0.9 1) \<le> 0" by (simp add: agent_init_def)
  have b: "n_acts (agent_init (- 2) 0.9 0) \<le> 0" by (simp add: agent_init_def)
  from a b act_fails_without_actions [OF a, of 3 sevens]
    act_fails_without_actions [OF b, of 3 sevens]
  show ?thesis by blast
qed



end
